theory Spec2Isabelle
  imports Main "HOL-Library.Sublist"
begin

section \<open>The notebook \<open>1_setup/setup_catalogs.py\<close>\<close>

text \<open>
  The source file is a Databricks notebook in its exported form: a header line, then cells
  separated by \<^verbatim>\<open># COMMAND ----------\<close>, each cell a run of \<^verbatim>\<open># MAGIC\<close> lines whose first
  line names the cell's language (\<^verbatim>\<open>%sql\<close> or \<^verbatim>\<open>%md\<close>). It has four cells:
  \<^verbatim>\<open>
  %sql  CREATE CATALOG IF NOT EXISTS fmcg;
  %sql  USE CATALOG fmcg;
  %md   Silver and Bronze schemas are exclusively for child company(Sportsbar) ...
  %sql  CREATE SCHEMA IF NOT EXISTS fmcg.gold;
        CREATE SCHEMA IF NOT EXISTS fmcg.silver;
        CREATE SCHEMA IF NOT EXISTS fmcg.bronze;
  \<close>
  There is no Python in the file: the program is the SQL of its cells.
\<close>

subsection \<open>Statements\<close>

text \<open>
  A schema is named either with its catalog (\<open>fmcg.gold\<close>) or by its own name alone, to be
  looked up in the session's active catalog. The notebook only uses the first form; the
  second is kept because the platform's name resolution distinguishes them.
\<close>

datatype schema_ident = Qualified string string | Unqualified string

datatype stmt =
    CREATE_CATALOG_IF_NOT_EXISTS string
  | USE_CATALOG string
  | CREATE_SCHEMA_IF_NOT_EXISTS schema_ident

datatype cell = Sql "stmt list" | Md "string list"

text \<open>The four cells, in the order of the file.\<close>

definition setup_catalogs :: "cell list" where
  "setup_catalogs =
     [Sql [CREATE_CATALOG_IF_NOT_EXISTS ''fmcg''],
      Sql [USE_CATALOG ''fmcg''],
      Md [''Silver and Bronze schemas are exclusively for child company(Sportsbar)'',
          ''whereas Gold schema will eventually contain data from both parent and child company ''],
      Sql [CREATE_SCHEMA_IF_NOT_EXISTS (Qualified ''fmcg'' ''gold''),
           CREATE_SCHEMA_IF_NOT_EXISTS (Qualified ''fmcg'' ''silver''),
           CREATE_SCHEMA_IF_NOT_EXISTS (Qualified ''fmcg'' ''bronze'')]]"

text \<open>A markdown cell executes nothing; an SQL cell contributes its statements in order.\<close>

fun cell_stmts :: "cell \<Rightarrow> stmt list" where
  "cell_stmts (Sql xs) = xs"
| "cell_stmts (Md t) = []"

definition provisioner :: "stmt list" where
  "provisioner = concat (map cell_stmts setup_catalogs)"

text \<open>The text of a statement, as it stands in the file.\<close>

fun render_ident :: "schema_ident \<Rightarrow> string" where
  "render_ident (Qualified c n) = c @ ''.'' @ n"
| "render_ident (Unqualified n) = n"

fun render :: "stmt \<Rightarrow> string" where
  "render (CREATE_CATALOG_IF_NOT_EXISTS c) = ''CREATE CATALOG IF NOT EXISTS '' @ c @ '';''"
| "render (USE_CATALOG c) = ''USE CATALOG '' @ c @ '';''"
| "render (CREATE_SCHEMA_IF_NOT_EXISTS r) = ''CREATE SCHEMA IF NOT EXISTS '' @ render_ident r @ '';''"

text \<open>
  The sequence of section 4.1 of the specification, written from its five numbered steps and
  the DDL surface of its section 6; it is compared with \<open>provisioner\<close> below.
\<close>

definition spec_sequence :: "stmt list" where
  "spec_sequence =
     [CREATE_CATALOG_IF_NOT_EXISTS ''fmcg'',
      USE_CATALOG ''fmcg'',
      CREATE_SCHEMA_IF_NOT_EXISTS (Qualified ''fmcg'' ''gold''),
      CREATE_SCHEMA_IF_NOT_EXISTS (Qualified ''fmcg'' ''silver''),
      CREATE_SCHEMA_IF_NOT_EXISTS (Qualified ''fmcg'' ''bronze'')]"

definition spec_ddl_surface :: "string list" where
  "spec_ddl_surface =
     [''CREATE CATALOG IF NOT EXISTS fmcg;'',
      ''USE CATALOG fmcg;'',
      ''CREATE SCHEMA IF NOT EXISTS fmcg.gold;'',
      ''CREATE SCHEMA IF NOT EXISTS fmcg.silver;'',
      ''CREATE SCHEMA IF NOT EXISTS fmcg.bronze;'']"

subsection \<open>The platform\<close>

text \<open>
  The statements run on the platform's SQL engine, which is not part of the repository. Its
  state is modelled as far as the five statements read or write it:
  \<^item> the namespace listing: the catalogs and schemas that exist, oldest first;
  \<^item> the session's active catalog, which \<open>USE CATALOG\<close> sets;
  \<^item> the two privileges of the connection that the statements need;
  \<^item> everything else the platform holds (tables and their rows), as one opaque component.
\<close>

datatype namespace = Catalog string | Schema string string

record 'd platform =
  namespaces :: "namespace list"
  current_catalog :: string
  can_create_catalog :: bool
  can_create_schema :: bool
  table_rows :: 'd

datatype error = PERMISSION_DENIED | CATALOG_NOT_FOUND string

text \<open>A schema name without a catalog is resolved in the active catalog.\<close>

fun resolve :: "'d platform \<Rightarrow> schema_ident \<Rightarrow> string \<times> string" where
  "resolve s (Qualified c n) = (c, n)"
| "resolve s (Unqualified n) = (current_catalog s, n)"

text \<open>
  Modelled from the spec: the platform's execution of one statement. The engine is the
  runtime of the notebook's SQL and not code of the repository. \<open>IF NOT EXISTS\<close> makes
  creation a no-op when the object is present (section 3); a connection that lacks the
  privilege to create is refused (section 4.1), whether or not the object is present
  (section 8: such a run "fails before any schema is created"); a catalog that does not
  exist can neither be selected nor hold a schema. The source of the statement decides the
  rest: which object it names, and whether a schema name carries its catalog.
\<close>

fun exec :: "stmt \<Rightarrow> 'd platform \<Rightarrow> error + 'd platform" where
  "exec (CREATE_CATALOG_IF_NOT_EXISTS c) s =
     (if \<not> can_create_catalog s then Inl PERMISSION_DENIED
      else if Catalog c \<in> set (namespaces s) then Inr s
      else Inr (s\<lparr>namespaces := namespaces s @ [Catalog c]\<rparr>))"
| "exec (USE_CATALOG c) s =
     (if Catalog c \<in> set (namespaces s) then Inr (s\<lparr>current_catalog := c\<rparr>)
      else Inl (CATALOG_NOT_FOUND c))"
| "exec (CREATE_SCHEMA_IF_NOT_EXISTS r) s =
     (case resolve s r of (c, n) \<Rightarrow>
        if Catalog c \<notin> set (namespaces s) then Inl (CATALOG_NOT_FOUND c)
        else if \<not> can_create_schema s then Inl PERMISSION_DENIED
        else if Schema c n \<in> set (namespaces s) then Inr s
        else Inr (s\<lparr>namespaces := namespaces s @ [Schema c n]\<rparr>))"

text \<open>
  Modelled from the spec: the notebook runner (sections 2 and 7). The statements run in the
  order of the file; the first one that fails ends the run there, in the state the
  statements before it produced. The outcome records the position of the failing statement,
  counted from 0.
\<close>

datatype outcome = Done | Failed nat error

fun run_from :: "nat \<Rightarrow> stmt list \<Rightarrow> 'd platform \<Rightarrow> outcome \<times> 'd platform" where
  "run_from i [] s = (Done, s)"
| "run_from i (x # xs) s =
     (case exec x s of
        Inl e \<Rightarrow> (Failed i e, s)
      | Inr s' \<Rightarrow> run_from (Suc i) xs s')"

definition run_stmts :: "stmt list \<Rightarrow> 'd platform \<Rightarrow> outcome \<times> 'd platform" where
  "run_stmts xs s = run_from 0 xs s"

definition run :: "'d platform \<Rightarrow> outcome \<times> 'd platform" where
  "run s = run_stmts provisioner s"

fun error_of :: "outcome \<Rightarrow> error option" where
  "error_of Done = None"
| "error_of (Failed i e) = Some e"

text \<open>The states a run passes through: one after each statement that succeeded.\<close>

fun states_after :: "stmt list \<Rightarrow> 'd platform \<Rightarrow> 'd platform list" where
  "states_after [] s = []"
| "states_after (x # xs) s =
     (case exec x s of
        Inl e \<Rightarrow> []
      | Inr s' \<Rightarrow> s' # states_after xs s')"

text \<open>Containment: every schema in the listing has its catalog in the listing.\<close>

fun parent_listed :: "namespace list \<Rightarrow> namespace \<Rightarrow> bool" where
  "parent_listed ns (Catalog c) = True"
| "parent_listed ns (Schema c n) = (Catalog c \<in> set ns)"

definition schemas_contained :: "'d platform \<Rightarrow> bool" where
  "schemas_contained s = list_all (parent_listed (namespaces s)) (namespaces s)"

text \<open>The notebook without its second cell, for the question whether that cell is needed.\<close>

definition without_use :: "stmt list" where
  "without_use = take 1 provisioner @ drop 2 provisioner"

text \<open>The schema names a script mentions, and the schemas a listing holds for a catalog.\<close>

fun schema_idents :: "stmt list \<Rightarrow> schema_ident list" where
  "schema_idents [] = []"
| "schema_idents (CREATE_SCHEMA_IF_NOT_EXISTS r # xs) = r # schema_idents xs"
| "schema_idents (x # xs) = schema_idents xs"

fun schemas_in :: "string \<Rightarrow> namespace list \<Rightarrow> string list" where
  "schemas_in c [] = []"
| "schemas_in c (Catalog d # ns) = schemas_in c ns"
| "schemas_in c (Schema d n # ns) = (if d = c then n # schemas_in c ns else schemas_in c ns)"

text \<open>The listing once an object has been ensured: as it was, or with the object added last.\<close>

definition ensure :: "namespace list \<Rightarrow> namespace \<Rightarrow> namespace list" where
  "ensure ns x = (if x \<in> set ns then ns else ns @ [x])"

subsection \<open>Notebook parameters\<close>

text \<open>
  The one way a notebook of SQL cells takes input is through its parameters (widgets): before
  a cell runs, the platform replaces every marker \<^verbatim>\<open>${name}\<close> in its text by the value bound
  to \<open>name\<close> for this run, and by nothing when no value is bound. A \<^verbatim>\<open>$\<close> that opens no marker,
  and a marker that is never closed, stand as they are. The scan below reads the text once,
  from the left; its mode is what it has seen of a marker so far.
\<close>

type_synonym bindings = "(string \<times> string) list"

fun bound_value :: "bindings \<Rightarrow> string \<Rightarrow> string" where
  "bound_value env n = (case map_of env n of None \<Rightarrow> [] | Some v \<Rightarrow> v)"

datatype scan = Plain | Dollar | Marker string

fun substitute_from :: "scan \<Rightarrow> bindings \<Rightarrow> string \<Rightarrow> string" where
  "substitute_from Plain env [] = []"
| "substitute_from Dollar env [] = ''$''"
| "substitute_from (Marker n) env [] = ''${'' @ n"
| "substitute_from Plain env (c # cs) =
     (if c = CHR ''$'' then substitute_from Dollar env cs
      else c # substitute_from Plain env cs)"
| "substitute_from Dollar env (c # cs) =
     (if c = CHR ''{'' then substitute_from (Marker []) env cs
      else if c = CHR ''$'' then CHR ''$'' # substitute_from Dollar env cs
      else CHR ''$'' # c # substitute_from Plain env cs)"
| "substitute_from (Marker n) env (c # cs) =
     (if c = CHR ''}'' then bound_value env n @ substitute_from Plain env cs
      else substitute_from (Marker (n @ [c])) env cs)"

definition substitute :: "bindings \<Rightarrow> string \<Rightarrow> string" where
  "substitute env t = substitute_from Plain env t"

text \<open>
  In a statement the names are the text a marker can stand in; the keywords are fixed. The
  statement that runs is the statement of the file with its names substituted.
\<close>

fun bind_ident :: "bindings \<Rightarrow> schema_ident \<Rightarrow> schema_ident" where
  "bind_ident env (Qualified c n) = Qualified (substitute env c) (substitute env n)"
| "bind_ident env (Unqualified n) = Unqualified (substitute env n)"

fun bind :: "bindings \<Rightarrow> stmt \<Rightarrow> stmt" where
  "bind env (CREATE_CATALOG_IF_NOT_EXISTS c) = CREATE_CATALOG_IF_NOT_EXISTS (substitute env c)"
| "bind env (USE_CATALOG c) = USE_CATALOG (substitute env c)"
| "bind env (CREATE_SCHEMA_IF_NOT_EXISTS r) = CREATE_SCHEMA_IF_NOT_EXISTS (bind_ident env r)"




text \<open>A script that does take a parameter, to set beside the notebook.\<close>

definition parameterised :: "stmt list" where
  "parameterised = [CREATE_CATALOG_IF_NOT_EXISTS ''${catalog}'']"

subsection \<open>Concrete platforms\<close>

text \<open>
  An empty platform on a connection that holds both privileges; a platform where \<open>fmcg\<close>
  exists beside another catalog and holds no schema; and connections that lack one of the
  privileges.
\<close>

definition empty_platform :: "(string \<times> string list) list platform" where
  "empty_platform =
     \<lparr>namespaces = [], current_catalog = ''hive_metastore'',
      can_create_catalog = True, can_create_schema = True,
      table_rows = [(''orders'', [''row 1'', ''row 2''])]\<rparr>"

definition catalog_only :: "(string \<times> string list) list platform" where
  "catalog_only =
     \<lparr>namespaces = [Catalog ''main'', Schema ''main'' ''default'', Catalog ''fmcg''],
      current_catalog = ''main'',
      can_create_catalog = True, can_create_schema = True,
      table_rows = [(''main.default.orders'', [''row 1''])]\<rparr>"

definition schema_denied :: "(string \<times> string list) list platform" where
  "schema_denied = empty_platform\<lparr>can_create_schema := False\<rparr>"

definition catalog_denied :: "(string \<times> string list) list platform" where
  "catalog_denied = catalog_only\<lparr>can_create_catalog := False\<rparr>"

definition fmcg_listing :: "namespace list" where
  "fmcg_listing =
     [Catalog ''fmcg'', Schema ''fmcg'' ''gold'', Schema ''fmcg'' ''silver'',
      Schema ''fmcg'' ''bronze'']"

section \<open>The script\<close>

lemma provisioner_eq:
  "provisioner =
     [CREATE_CATALOG_IF_NOT_EXISTS ''fmcg'', USE_CATALOG ''fmcg'',
      CREATE_SCHEMA_IF_NOT_EXISTS (Qualified ''fmcg'' ''gold''),
      CREATE_SCHEMA_IF_NOT_EXISTS (Qualified ''fmcg'' ''silver''),
      CREATE_SCHEMA_IF_NOT_EXISTS (Qualified ''fmcg'' ''bronze'')]"
  by (simp add: provisioner_def setup_catalogs_def)

text \<open>
  C3. The provisioner is exactly the fixed sequence of five statements of the specification,
  in its order: the statements of the notebook's cells, read off in order, are the reference
  sequence, and their text is the DDL surface of section 6, character for character. A script
  is a list of statements, and a statement is one of three DDL forms: nothing in it branches
  or loops.
\<close>

theorem provisioner_is_spec_sequence:
  "provisioner = spec_sequence \<and> map render provisioner = spec_ddl_surface \<and>
   length provisioner = 5"
  by (simp add: provisioner_eq spec_sequence_def spec_ddl_surface_def)

section \<open>One run\<close>

text \<open>
  A run that fails does so at a statement of the script, after the statements before it
  have all succeeded, and it ends in the state they produced.
\<close>

lemma run_from_Failed:
  "run_from k xs s = (Failed i e, s') \<Longrightarrow>
     \<exists>j<length xs. i = k + j \<and> run_from k (take j xs) s = (Done, s') \<and>
       exec (xs ! j) s' = Inl e"
proof (induction xs arbitrary: k s)
  case Nil
  then show ?case by simp
next
  case (Cons x xs)
  show ?case
  proof (cases "exec x s")
    case (Inl e')
    with Cons.prems have "i = k" "e' = e" "s' = s" by simp_all
    with Inl have
      "i = k + 0 \<and> run_from k (take 0 (x # xs)) s = (Done, s') \<and>
       exec ((x # xs) ! 0) s' = Inl e"
      by simp
    then show ?thesis by blast
  next
    case (Inr t)
    with Cons.prems have "run_from (Suc k) xs t = (Failed i e, s')" by simp
    from Cons.IH [OF this] obtain j where
      j: "j < length xs" "i = Suc k + j" "run_from (Suc k) (take j xs) t = (Done, s')"
         "exec (xs ! j) s' = Inl e" by blast
    from j(3) Inr have "run_from k (take (Suc j) (x # xs)) s = (Done, s')" by simp
    with j show ?thesis by (intro exI [of _ "Suc j"]) simp
  qed
qed

text \<open>
  The run of the five statements, written out. It has three ends: refused at the first
  statement; refused at the third, with the catalog ensured and selected; or done.
\<close>

lemma run_unfold:
  "run s =
     (if \<not> can_create_catalog s then (Failed 0 PERMISSION_DENIED, s)
      else if \<not> can_create_schema s
        then (Failed 2 PERMISSION_DENIED,
              s\<lparr>namespaces := ensure (namespaces s) (Catalog ''fmcg''),
                current_catalog := ''fmcg''\<rparr>)
      else (Done,
            s\<lparr>namespaces :=
                 ensure (ensure (ensure (ensure (namespaces s) (Catalog ''fmcg''))
                   (Schema ''fmcg'' ''gold'')) (Schema ''fmcg'' ''silver''))
                   (Schema ''fmcg'' ''bronze''),
              current_catalog := ''fmcg''\<rparr>))"
  by (simp add: run_def run_stmts_def provisioner_eq ensure_def)

lemma run_Done_iff: "fst (run s) = Done \<longleftrightarrow> can_create_catalog s \<and> can_create_schema s"
  by (simp add: run_unfold)

lemma in_ensure: "y \<in> set (ensure ns x) \<longleftrightarrow> y = x \<or> y \<in> set ns"
  by (auto simp: ensure_def)

lemma ensure_present: "x \<in> set ns \<Longrightarrow> ensure ns x = ns"
  by (simp add: ensure_def)

text \<open>
  C1. On a platform with no namespaces, a run of the provisioner that completes leaves a
  listing that holds the catalog fmcg and the schemas fmcg.gold, fmcg.silver and
  fmcg.bronze, each once, and nothing else.
\<close>

theorem run_on_empty_platform:
  "namespaces s = [] \<Longrightarrow> run s = (Done, s') \<Longrightarrow>
     namespaces s' = fmcg_listing \<and>
     set (namespaces s') =
       {Catalog ''fmcg'', Schema ''fmcg'' ''gold'', Schema ''fmcg'' ''silver'',
        Schema ''fmcg'' ''bronze''}"
  by (auto simp: run_unfold ensure_def fmcg_listing_def split: if_splits)

theorem run_on_empty_platform_witness:
  "namespaces empty_platform = [] \<and> fst (run empty_platform) = Done \<and>
   namespaces (snd (run empty_platform)) =
     [Catalog ''fmcg'', Schema ''fmcg'' ''gold'', Schema ''fmcg'' ''silver'',
      Schema ''fmcg'' ''bronze'']"
proof -
  have e: "namespaces empty_platform = []"
    by (simp add: empty_platform_def)
  have d: "fst (run empty_platform) = Done"
    by (simp add: run_Done_iff empty_platform_def)
  then have r: "run empty_platform = (Done, snd (run empty_platform))"
    by (metis prod.collapse)
  from run_on_empty_platform [OF e r] e d show ?thesis
    by (simp add: fmcg_listing_def)
qed

text \<open>
  C2. Running the provisioner twice in succession ends in the same platform state, with the
  same namespaces, as running it once, whatever the initial state; the second run ends as
  the first did, so after a first run that completed the second run is not an error.
\<close>

theorem run_twice:
  "run (snd (run s)) = run s \<and>
   set (namespaces (snd (run (snd (run s))))) = set (namespaces (snd (run s))) \<and>
   (fst (run s) = Done \<longrightarrow> fst (run (snd (run s))) = Done)"
proof -
  have "run (snd (run s)) = run s"
    by (simp add: run_unfold in_ensure ensure_present)
  then show ?thesis by simp
qed

theorem run_twice_witness:
  "fst (run empty_platform) = Done \<and> fst (run (snd (run empty_platform))) = Done \<and>
   namespaces (snd (run (snd (run empty_platform)))) = fmcg_listing \<and>
   namespaces (snd (run empty_platform)) = fmcg_listing"
proof -
  have d: "fst (run empty_platform) = Done"
    by (simp add: run_Done_iff empty_platform_def)
  have n: "namespaces (snd (run empty_platform)) = fmcg_listing"
    by (simp add: run_unfold ensure_def empty_platform_def fmcg_listing_def)
  from run_twice [of empty_platform] d n show ?thesis by simp
qed

text \<open>
  C4. A run that fails halts at the failing statement: the statements before it have all
  succeeded and their effects are the state the run ends in, and no later statement has
  run. A connection that lacks the privilege to create catalogs fails at the first
  statement, before any schema statement, and the platform is left exactly as it was.
\<close>

theorem run_halts_at_failure:
  "(run s = (Failed i e, s') \<longrightarrow>
      i < length provisioner \<and> run_stmts (take i provisioner) s = (Done, s') \<and>
      exec (provisioner ! i) s' = Inl e) \<and>
   (\<not> can_create_catalog s \<longrightarrow> run s = (Failed 0 PERMISSION_DENIED, s))"
proof -
  have halt: "i < length provisioner \<and> run_stmts (take i provisioner) s = (Done, s') \<and>
        exec (provisioner ! i) s' = Inl e" if "run s = (Failed i e, s')"
  proof -
    from that have "run_from 0 provisioner s = (Failed i e, s')"
      by (simp add: run_def run_stmts_def)
    from run_from_Failed [OF this] show ?thesis
      by (auto simp: run_stmts_def)
  qed
  have denied: "run s = (Failed 0 PERMISSION_DENIED, s)" if "\<not> can_create_catalog s"
    using that by (simp add: run_unfold)
  from halt denied show ?thesis by blast
qed

theorem run_halts_at_failure_witness:
  "run schema_denied =
     (Failed 2 PERMISSION_DENIED,
      schema_denied\<lparr>namespaces := [Catalog ''fmcg''], current_catalog := ''fmcg''\<rparr>) \<and>
   run_stmts (take 2 provisioner) schema_denied =
     (Done, schema_denied\<lparr>namespaces := [Catalog ''fmcg''], current_catalog := ''fmcg''\<rparr>) \<and>
   exec (provisioner ! 2)
     (schema_denied\<lparr>namespaces := [Catalog ''fmcg''], current_catalog := ''fmcg''\<rparr>) =
     Inl PERMISSION_DENIED \<and>
   \<not> can_create_catalog catalog_denied \<and>
   run catalog_denied = (Failed 0 PERMISSION_DENIED, catalog_denied) \<and>
   namespaces (snd (run catalog_denied)) =
     [Catalog ''main'', Schema ''main'' ''default'', Catalog ''fmcg'']"
proof -
  let ?t = "schema_denied\<lparr>namespaces := [Catalog ''fmcg''], current_catalog := ''fmcg''\<rparr>"
  have r: "run schema_denied = (Failed 2 PERMISSION_DENIED, ?t)"
    by (simp add: run_unfold ensure_def schema_denied_def empty_platform_def)
  have c: "\<not> can_create_catalog catalog_denied"
    by (simp add: catalog_denied_def)
  have n: "namespaces catalog_denied =
             [Catalog ''main'', Schema ''main'' ''default'', Catalog ''fmcg'']"
    by (simp add: catalog_denied_def catalog_only_def)
  from run_halts_at_failure [of schema_denied 2 PERMISSION_DENIED ?t] r
       run_halts_at_failure [of catalog_denied 0 PERMISSION_DENIED catalog_denied] c n
  show ?thesis by simp
qed

lemma schemas_in_empty: "schemas_in c ns = [] \<longleftrightarrow> (\<forall>n. Schema c n \<notin> set ns)"
  by (induction c ns rule: schemas_in.induct) auto

text \<open>
  C5. Where the catalog fmcg exists and holds no schema, a run of the provisioner that
  completes adds exactly the three schemas fmcg.gold, fmcg.silver and fmcg.bronze: the
  listing is the old listing, entry for entry, followed by the three. The catalog is neither
  created again nor moved, and no other entry changes.
\<close>

theorem run_on_existing_catalog:
  "Catalog ''fmcg'' \<in> set (namespaces s) \<Longrightarrow> schemas_in ''fmcg'' (namespaces s) = [] \<Longrightarrow>
   run s = (Done, s') \<Longrightarrow>
     namespaces s' =
       namespaces s @
         [Schema ''fmcg'' ''gold'', Schema ''fmcg'' ''silver'', Schema ''fmcg'' ''bronze''] \<and>
     set (namespaces s') - set (namespaces s) =
       {Schema ''fmcg'' ''gold'', Schema ''fmcg'' ''silver'', Schema ''fmcg'' ''bronze''} \<and>
     count_list (namespaces s') (Catalog ''fmcg'') = count_list (namespaces s) (Catalog ''fmcg'')"
proof -
  assume c: "Catalog ''fmcg'' \<in> set (namespaces s)"
    and e: "schemas_in ''fmcg'' (namespaces s) = []"
    and r: "run s = (Done, s')"
  from e have no: "\<And>n. Schema ''fmcg'' n \<notin> set (namespaces s)"
    by (simp add: schemas_in_empty)
  from r c no have n: "namespaces s' =
      namespaces s @
        [Schema ''fmcg'' ''gold'', Schema ''fmcg'' ''silver'', Schema ''fmcg'' ''bronze'']"
    by (auto simp: run_unfold ensure_def split: if_splits)
  from n no have "set (namespaces s') - set (namespaces s) =
      {Schema ''fmcg'' ''gold'', Schema ''fmcg'' ''silver'', Schema ''fmcg'' ''bronze''}"
    by auto
  with n show ?thesis by simp
qed

theorem run_on_existing_catalog_witness:
  "Catalog ''fmcg'' \<in> set (namespaces catalog_only) \<and>
   schemas_in ''fmcg'' (namespaces catalog_only) = [] \<and>
   fst (run catalog_only) = Done \<and>
   namespaces (snd (run catalog_only)) =
     [Catalog ''main'', Schema ''main'' ''default'', Catalog ''fmcg'',
      Schema ''fmcg'' ''gold'', Schema ''fmcg'' ''silver'', Schema ''fmcg'' ''bronze'']"
proof -
  have c: "Catalog ''fmcg'' \<in> set (namespaces catalog_only)"
    by (simp add: catalog_only_def)
  have e: "schemas_in ''fmcg'' (namespaces catalog_only) = []"
    by (simp add: catalog_only_def)
  have d: "fst (run catalog_only) = Done"
    by (simp add: run_Done_iff catalog_only_def)
  then have r: "run catalog_only = (Done, snd (run catalog_only))"
    by (metis prod.collapse)
  have n: "namespaces catalog_only = [Catalog ''main'', Schema ''main'' ''default'', Catalog ''fmcg'']"
    by (simp add: catalog_only_def)
  from run_on_existing_catalog [OF c e r] c e d n show ?thesis by simp
qed

text \<open>
  C6, as the claim states it, fails: the second statement sets the session's active catalog,
  so a component other than the namespaces differs after a successful run. On the empty
  platform the active catalog is \<open>hive_metastore\<close> before the run and \<open>fmcg\<close> after it.
\<close>

theorem active_catalog_changes:
  "fst (run empty_platform) = Done \<and>
   current_catalog empty_platform = ''hive_metastore'' \<and>
   current_catalog (snd (run empty_platform)) = ''fmcg'' \<and>
   current_catalog (snd (run empty_platform)) \<noteq> current_catalog empty_platform"
  by (simp add: run_unfold empty_platform_def)

text \<open>
  C6, amended. A successful run changes the namespace listing and the session's active
  catalog, which it leaves at fmcg, and nothing else: the rows of every table, the
  privileges of the connection and every other component of the state are as before.
\<close>

theorem run_frame:
  "run s = (Done, s') \<Longrightarrow>
     s' = s\<lparr>namespaces := namespaces s', current_catalog := ''fmcg''\<rparr> \<and>
     table_rows s' = table_rows s \<and>
     can_create_catalog s' = can_create_catalog s \<and>
     can_create_schema s' = can_create_schema s"
  by (auto simp: run_unfold split: if_splits)

theorem run_frame_witness:
  "fst (run catalog_only) = Done \<and>
   table_rows (snd (run catalog_only)) = [(''main.default.orders'', [''row 1''])] \<and>
   table_rows catalog_only = [(''main.default.orders'', [''row 1''])] \<and>
   current_catalog (snd (run catalog_only)) = ''fmcg'' \<and>
   snd (run catalog_only) =
     catalog_only\<lparr>namespaces := namespaces (snd (run catalog_only)),
                  current_catalog := ''fmcg''\<rparr>"
proof -
  have d: "fst (run catalog_only) = Done"
    by (simp add: run_Done_iff catalog_only_def)
  then have r: "run catalog_only = (Done, snd (run catalog_only))"
    by (metis prod.collapse)
  have t: "table_rows catalog_only = [(''main.default.orders'', [''row 1''])]"
    by (simp add: catalog_only_def)
  have c: "current_catalog (snd (run catalog_only)) = ''fmcg''"
    by (simp add: run_unfold catalog_only_def)
  from run_frame [OF r] d t c show ?thesis by simp
qed

section \<open>The second cell and the resolution of names\<close>

lemma without_use_eq:
  "without_use =
     [CREATE_CATALOG_IF_NOT_EXISTS ''fmcg'',
      CREATE_SCHEMA_IF_NOT_EXISTS (Qualified ''fmcg'' ''gold''),
      CREATE_SCHEMA_IF_NOT_EXISTS (Qualified ''fmcg'' ''silver''),
      CREATE_SCHEMA_IF_NOT_EXISTS (Qualified ''fmcg'' ''bronze'')]"
  by (simp add: without_use_def provisioner_eq)

lemma run_without_use_unfold:
  "run_stmts without_use s =
     (if \<not> can_create_catalog s then (Failed 0 PERMISSION_DENIED, s)
      else if \<not> can_create_schema s
        then (Failed 1 PERMISSION_DENIED,
              s\<lparr>namespaces := ensure (namespaces s) (Catalog ''fmcg'')\<rparr>)
      else (Done,
            s\<lparr>namespaces :=
                 ensure (ensure (ensure (ensure (namespaces s) (Catalog ''fmcg''))
                   (Schema ''fmcg'' ''gold'')) (Schema ''fmcg'' ''silver''))
                   (Schema ''fmcg'' ''bronze'')\<rparr>))"
  by (simp add: run_stmts_def without_use_eq ensure_def)

text \<open>
  A name without a catalog does depend on the active catalog: had the notebook written
  \<open>gold\<close> for \<open>fmcg.gold\<close>, the second cell would decide where the schema is created.
\<close>

lemma unqualified_follows_active_catalog:
  "exec (CREATE_SCHEMA_IF_NOT_EXISTS (Unqualified ''gold''))
     (catalog_only\<lparr>current_catalog := ''fmcg''\<rparr>) =
     Inr (catalog_only\<lparr>current_catalog := ''fmcg'',
            namespaces := namespaces catalog_only @ [Schema ''fmcg'' ''gold'']\<rparr>) \<and>
   exec (CREATE_SCHEMA_IF_NOT_EXISTS (Unqualified ''gold'')) catalog_only =
     Inr (catalog_only\<lparr>namespaces := namespaces catalog_only @ [Schema ''main'' ''gold'']\<rparr>)"
  by (simp add: catalog_only_def)

text \<open>
  C7, as the claim states it, fails: there is no initial state from which the notebook
  without its second cell ends with another error, or without one, or with other namespaces
  than the notebook itself. The three schema statements name the catalog (\<open>fmcg.gold\<close>), so
  they do not read the active catalog.
\<close>

theorem use_catalog_not_needed:
  "\<not> (\<exists>(s :: 'd platform) c.
        \<not> (map (resolve (s\<lparr>current_catalog := c\<rparr>)) (schema_idents provisioner) =
             map (resolve s) (schema_idents provisioner) \<and>
           error_of (fst (run_stmts without_use s)) = error_of (fst (run s)) \<and>
           namespaces (snd (run_stmts without_use s)) = namespaces (snd (run s))))"
  by (simp add: run_unfold run_without_use_unfold provisioner_eq)

text \<open>
  C7, amended. The schema statements of the notebook resolve their names without the second
  cell: each name carries its catalog and resolves to the same schema in every session. From
  every initial state the notebook without that cell ends with the same error or none, and
  in the same state but for the active catalog, which it leaves as it was.
\<close>

theorem run_without_use:
  "map (resolve s) (schema_idents provisioner) =
     [(''fmcg'', ''gold''), (''fmcg'', ''silver''), (''fmcg'', ''bronze'')] \<and>
   error_of (fst (run_stmts without_use s)) = error_of (fst (run s)) \<and>
   snd (run_stmts without_use s) = (snd (run s))\<lparr>current_catalog := current_catalog s\<rparr>"
  by (simp add: run_unfold run_without_use_unfold provisioner_eq)

theorem run_without_use_witness:
  "map (resolve empty_platform) (schema_idents provisioner) =
     [(''fmcg'', ''gold''), (''fmcg'', ''silver''), (''fmcg'', ''bronze'')] \<and>
   fst (run_stmts without_use empty_platform) = Done \<and>
   fst (run empty_platform) = Done \<and>
   namespaces (snd (run_stmts without_use empty_platform)) = fmcg_listing \<and>
   namespaces (snd (run empty_platform)) = fmcg_listing \<and>
   current_catalog (snd (run_stmts without_use empty_platform)) = ''hive_metastore'' \<and>
   current_catalog (snd (run empty_platform)) = ''fmcg''"
proof -
  have a: "fst (run empty_platform) = Done"
    by (simp add: run_Done_iff empty_platform_def)
  have b: "namespaces (snd (run empty_platform)) = fmcg_listing"
    by (simp add: run_unfold ensure_def empty_platform_def fmcg_listing_def)
  have c: "current_catalog (snd (run empty_platform)) = ''fmcg''"
    by (simp add: run_unfold empty_platform_def)
  have d: "current_catalog empty_platform = ''hive_metastore''"
    by (simp add: empty_platform_def)
  have e: "fst (run_stmts without_use empty_platform) = Done"
    by (simp add: run_without_use_unfold empty_platform_def)
  from run_without_use [of empty_platform] a b c d e show ?thesis by simp
qed

section \<open>What every run preserves\<close>

lemma exec_prefix: "exec x s = Inr t \<Longrightarrow> prefix (namespaces s) (namespaces t)"
  by (cases x) (auto split: if_splits prod.splits)

lemma run_from_prefix: "prefix (namespaces s) (namespaces (snd (run_from k xs s)))"
proof (induction xs arbitrary: k s)
  case Nil
  show ?case by simp
next
  case (Cons x xs)
  show ?case
  proof (cases "exec x s")
    case (Inl e)
    then show ?thesis by simp
  next
    case (Inr t)
    from exec_prefix [OF Inr] Cons.IH [of t "Suc k"]
    have "prefix (namespaces s) (namespaces (snd (run_from (Suc k) xs t)))"
      by (rule prefix_order.trans)
    with Inr show ?thesis by simp
  qed
qed

text \<open>
  C8. No run of the provisioner, completed or aborted, removes or changes a namespace: the
  listing it ends with begins with the listing it started from, entry for entry, so every
  catalog and schema that existed is still there, unchanged, and the set of namespaces has
  only grown.
\<close>

theorem run_monotone:
  "prefix (namespaces s) (namespaces (snd (run s))) \<and>
   set (namespaces s) \<subseteq> set (namespaces (snd (run s))) \<and>
   take (length (namespaces s)) (namespaces (snd (run s))) = namespaces s"
proof -
  have p: "prefix (namespaces s) (namespaces (snd (run s)))"
    by (simp add: run_def run_stmts_def run_from_prefix)
  then obtain zs where "namespaces (snd (run s)) = namespaces s @ zs"
    by (auto simp: prefix_def)
  with p show ?thesis by auto
qed

theorem run_monotone_witness:
  "namespaces schema_denied = [] \<and>
   fst (run schema_denied) = Failed 2 PERMISSION_DENIED \<and>
   namespaces (snd (run schema_denied)) = [Catalog ''fmcg''] \<and>
   namespaces catalog_only = [Catalog ''main'', Schema ''main'' ''default'', Catalog ''fmcg''] \<and>
   fst (run catalog_only) = Done \<and>
   prefix [Catalog ''main'', Schema ''main'' ''default'', Catalog ''fmcg'']
     (namespaces (snd (run catalog_only)))"
proof -
  have a: "namespaces schema_denied = []"
    by (simp add: schema_denied_def empty_platform_def)
  have b: "fst (run schema_denied) = Failed 2 PERMISSION_DENIED"
    by (simp add: run_unfold schema_denied_def empty_platform_def)
  have c: "namespaces (snd (run schema_denied)) = [Catalog ''fmcg'']"
    by (simp add: run_unfold ensure_def schema_denied_def empty_platform_def)
  have d: "namespaces catalog_only = [Catalog ''main'', Schema ''main'' ''default'', Catalog ''fmcg'']"
    by (simp add: catalog_only_def)
  have e: "fst (run catalog_only) = Done"
    by (simp add: run_Done_iff catalog_only_def)
  from run_monotone [of catalog_only] a b c d e show ?thesis by simp
qed

section \<open>Containment at every step\<close>

lemma contained_iff:
  "schemas_contained s \<longleftrightarrow> (\<forall>c n. Schema c n \<in> set (namespaces s) \<longrightarrow> Catalog c \<in> set (namespaces s))"
proof
  assume a: "schemas_contained s"
  show "\<forall>c n. Schema c n \<in> set (namespaces s) \<longrightarrow> Catalog c \<in> set (namespaces s)"
  proof (intro allI impI)
    fix c n
    assume "Schema c n \<in> set (namespaces s)"
    moreover from a have "\<forall>x\<in>set (namespaces s). parent_listed (namespaces s) x"
      by (simp add: schemas_contained_def list_all_iff)
    ultimately have "parent_listed (namespaces s) (Schema c n)" by blast
    then show "Catalog c \<in> set (namespaces s)" by simp
  qed
next
  assume a: "\<forall>c n. Schema c n \<in> set (namespaces s) \<longrightarrow> Catalog c \<in> set (namespaces s)"
  have "parent_listed (namespaces s) x" if "x \<in> set (namespaces s)" for x
  proof (cases x)
    case (Catalog c)
    then show ?thesis by simp
  next
    case (Schema c n)
    with that a show ?thesis by auto
  qed
  then show "schemas_contained s"
    by (simp add: schemas_contained_def list_all_iff)
qed

lemma exec_contained: "schemas_contained s \<Longrightarrow> exec x s = Inr t \<Longrightarrow> schemas_contained t"
  by (cases x) (fastforce simp: contained_iff split: if_splits prod.splits)+

lemma states_after_contained: "schemas_contained s \<Longrightarrow> list_all schemas_contained (states_after xs s)"
proof (induction xs arbitrary: s)
  case Nil
  show ?case by simp
next
  case (Cons x xs)
  show ?case
  proof (cases "exec x s")
    case (Inl e)
    then show ?thesis by simp
  next
    case (Inr t)
    from exec_contained [OF Cons.prems Inr] have "schemas_contained t" .
    with Cons.IH [of t] Inr show ?thesis by simp
  qed
qed

text \<open>The run ends in the last of the states it passed through.\<close>

lemma run_from_last: "snd (run_from k xs s) = last (s # states_after xs s)"
  by (induction xs arbitrary: k s) (auto split: sum.splits)

lemma states_after_fmcg:
  "list_all (\<lambda>t. Catalog ''fmcg'' \<in> set (namespaces t)) (states_after provisioner s)"
  by (simp add: provisioner_eq)

text \<open>
  C9. From a platform whose schemas all have their catalog, every state the run passes
  through, after each statement that succeeded, and the state it ends in, has the same
  property: no schema is ever listed without its catalog. The catalog fmcg is in the listing
  from the first statement on, so it is there before any of its three schemas is created.
\<close>

theorem run_keeps_containment:
  "schemas_contained s \<Longrightarrow>
     list_all (\<lambda>t. schemas_contained t \<and> Catalog ''fmcg'' \<in> set (namespaces t))
       (states_after provisioner s) \<and>
     schemas_contained (snd (run s)) \<and>
     snd (run s) = last (s # states_after provisioner s)"
proof -
  assume a: "schemas_contained s"
  from states_after_contained [OF a, of provisioner] states_after_fmcg [of s]
  have l: "list_all (\<lambda>t. schemas_contained t \<and> Catalog ''fmcg'' \<in> set (namespaces t))
             (states_after provisioner s)"
    by (simp add: list_all_iff)
  have e: "snd (run s) = last (s # states_after provisioner s)"
    by (simp add: run_def run_stmts_def run_from_last)
  from a states_after_contained [OF a, of provisioner]
  have "list_all schemas_contained (s # states_after provisioner s)" by simp
  then have "schemas_contained (last (s # states_after provisioner s))"
    unfolding list_all_iff using last_in_set [of "s # states_after provisioner s"] by blast
  with l e show ?thesis by simp
qed

theorem run_keeps_containment_witness:
  "schemas_contained catalog_only \<and>
   length (states_after provisioner catalog_only) = 5 \<and>
   list_all (\<lambda>t. schemas_contained t \<and> Catalog ''fmcg'' \<in> set (namespaces t))
     (states_after provisioner catalog_only) \<and>
   schemas_contained (snd (run catalog_only))"
proof -
  have a: "schemas_contained catalog_only"
    by (simp add: schemas_contained_def catalog_only_def)
  have b: "length (states_after provisioner catalog_only) = 5"
    by (simp add: provisioner_eq catalog_only_def)
  from run_keeps_containment [OF a] a b show ?thesis by blast
qed

section \<open>Determinism\<close>








text \<open>
  A script with a marker in it does take an input: under two bindings of \<open>catalog\<close> the same
  platform ends with two different listings.
\<close>

lemma parameterised_depends_on_bindings:
  "map (bind [(''catalog'', ''dev'')]) parameterised = [CREATE_CATALOG_IF_NOT_EXISTS ''dev''] \<and>
   map (bind [(''catalog'', ''prod'')]) parameterised = [CREATE_CATALOG_IF_NOT_EXISTS ''prod''] \<and>
   namespaces (snd (run_stmts (map (bind [(''catalog'', ''dev'')]) parameterised) empty_platform)) =
     [Catalog ''dev''] \<and>
   namespaces (snd (run_stmts (map (bind [(''catalog'', ''prod'')]) parameterised) empty_platform)) =
     [Catalog ''prod'']"
  by (simp add: parameterised_def substitute_def run_stmts_def empty_platform_def)



end
